theory Spec2Isabelle
  imports Main "HOL-Library.Sublist"
begin

section \<open>The environment of \<^verbatim>\<open>setup_dev.py\<close>\<close>

text \<open>
  The script acts on the working directory, on the two output streams and on the shell.
  A path is the string the script passes to the operating system; the working directory
  is a finite map from canonical relative paths (components joined by single slashes) to
  nodes. A file holds bytes. A text, the value of a Python \<^verbatim>\<open>str\<close>, is held as its
  UTF-8 bytes; the locale is taken to be UTF-8, the encoding that \<^verbatim>\<open>open\<close> and
  \<^verbatim>\<open>subprocess.run\<close> decode with when the script names none.
\<close>

type_synonym path = string

datatype node = File string | Dir

type_synonym filesystem = "path \<rightharpoonup> node"

text \<open>The exceptions of the operating-system calls that the script leaves uncaught.\<close>

datatype py_error =
  FileExistsError | FileNotFoundError | NotADirectoryError | IsADirectoryError | UnicodeDecodeError

text \<open>
  The four functions that \<^verbatim>\<open>main\<close> calls. The field \<open>calls\<close> of the world
  records the entry into each of them, in order; it is an observation only, no function
  of the model reads it.
\<close>

datatype phase = Create_directories | Setup_submodules | Verify_structure | Update_project_plugins

record world =
  fs :: filesystem
  out :: "string list"
  err :: "string list"
  cmds :: "string list"
  calls :: "phase list"

text \<open>
  \<^verbatim>\<open>subprocess.run(cmd, shell=True, capture_output=True, text=True)\<close>: the shell is
  outside the repository, so it is a parameter of the model. It maps a command line and
  the working directory to the return code, to the bytes the process wrote on its two
  streams, and to the working directory it leaves.
\<close>

record completed_process =
  returncode :: int
  stdout :: string
  stderr :: string
  fs_after :: filesystem

type_synonym shell = "string \<Rightarrow> filesystem \<Rightarrow> completed_process"

definition print :: "string \<Rightarrow> world \<Rightarrow> world" where
  "print s w = w\<lparr>out := out w @ [s]\<rparr>"

definition print_stderr :: "string \<Rightarrow> world \<Rightarrow> world" where
  "print_stderr s w = w\<lparr>err := err w @ [s]\<rparr>"

definition enter :: "phase \<Rightarrow> world \<Rightarrow> world" where
  "enter ph w = w\<lparr>calls := calls w @ [ph]\<rparr>"

subsection \<open>Operating-system calls\<close>

definition path_exists :: "filesystem \<Rightarrow> path \<Rightarrow> bool" where
  "path_exists f p = (f p \<noteq> None)"

definition isdir :: "filesystem \<Rightarrow> path \<Rightarrow> bool" where
  "isdir f p = (f p = Some Dir)"

text \<open>
  \<^verbatim>\<open>posixpath.split\<close>: the text after the last slash is the tail; the head is what
  precedes it, without its trailing slashes unless it consists of slashes only.
\<close>

definition posix_split :: "path \<Rightarrow> path \<times> path" where
  "posix_split p =
     (let tail = rev (takeWhile (\<lambda>c. c \<noteq> CHR ''/'') (rev p));
          head = rev (dropWhile (\<lambda>c. c \<noteq> CHR ''/'') (rev p))
      in (if head \<noteq> [] \<and> \<not> list_all (\<lambda>c. c = CHR ''/'') head
          then rev (dropWhile (\<lambda>c. c = CHR ''/'') (rev head))
          else head,
          tail))"

text \<open>
  \<^verbatim>\<open>os.mkdir\<close> on a canonical relative path: the parent is resolved first, then the
  name must be free.
\<close>

definition mkdir :: "path \<Rightarrow> filesystem \<Rightarrow> py_error + filesystem" where
  "mkdir name f =
     (let parent = fst (posix_split name) in
      if name = [] then Inl FileNotFoundError
      else if parent \<noteq> [] \<and> f parent = None then Inl FileNotFoundError
      else if parent \<noteq> [] \<and> f parent \<noteq> Some Dir then Inl NotADirectoryError
      else if f name \<noteq> None then Inl FileExistsError
      else Inr (f(name \<mapsto> Dir)))"

text \<open>
  \<^verbatim>\<open>os.makedirs(name, exist_ok=...)\<close>, after the standard library:
  \<^verbatim>\<open>
    head, tail = path.split(name)
    if not tail:
        head, tail = path.split(head)
    if head and tail and not path.exists(head):
        try:
            makedirs(head, exist_ok=exist_ok)
        except FileExistsError:
            pass
        if tail == curdir:
            return
    try:
        mkdir(name, mode)
    except OSError:
        if not exist_ok or not path.isdir(name):
            raise
  \<close>
  An exception leaves the directories made before it in place, so the working directory
  is returned beside the outcome.
\<close>

definition makedirs_split :: "path \<Rightarrow> path \<times> path" where
  "makedirs_split name =
     (let s = posix_split name in if snd s = [] then posix_split (fst s) else s)"

definition makedirs_leaf :: "path \<Rightarrow> bool \<Rightarrow> filesystem \<Rightarrow> (py_error + unit) \<times> filesystem" where
  "makedirs_leaf name exist_ok f =
     (case mkdir name f of
        Inr f' \<Rightarrow> (Inr (), f')
      | Inl e \<Rightarrow> if \<not> exist_ok \<or> \<not> isdir f name then (Inl e, f) else (Inr (), f))"

function makedirs :: "path \<Rightarrow> bool \<Rightarrow> filesystem \<Rightarrow> (py_error + unit) \<times> filesystem" where
  "makedirs name exist_ok f =
     (let head = fst (makedirs_split name); tail = snd (makedirs_split name) in
      if head \<noteq> [] \<and> tail \<noteq> [] \<and> \<not> path_exists f head then
        (case makedirs head exist_ok f of
           (Inl e, f1) \<Rightarrow>
             if e = FileExistsError
             then (if tail = ''.'' then (Inr (), f1) else makedirs_leaf name exist_ok f1)
             else (Inl e, f1)
         | (Inr u, f1) \<Rightarrow>
             if tail = ''.'' then (Inr (), f1) else makedirs_leaf name exist_ok f1)
      else makedirs_leaf name exist_ok f)"
  by pat_completeness auto
termination
proof (relation "measure (\<lambda>(name, exist_ok, f). length name)")
  show "wf (measure (\<lambda>(name :: path, exist_ok :: bool, f :: filesystem). length name))"
    by simp
next
  fix name :: path and exist_ok :: bool and f :: filesystem and head tail :: path
  assume head: "head = fst (makedirs_split name)"
    and tail: "tail = snd (makedirs_split name)"
    and go: "head \<noteq> [] \<and> tail \<noteq> [] \<and> \<not> path_exists f head"
  have len: "length (fst (posix_split p)) + length (snd (posix_split p)) \<le> length p" for p
  proof -
    let ?P = "\<lambda>c. c \<noteq> CHR ''/''"
    let ?h = "rev (dropWhile ?P (rev p))"
    have whole: "length (takeWhile ?P (rev p)) + length (dropWhile ?P (rev p)) = length p"
      by (metis length_append length_rev takeWhile_dropWhile_id)
    have strip: "length (dropWhile (\<lambda>c. c = CHR ''/'') (rev ?h)) \<le> length ?h"
      using length_dropWhile_le [of "\<lambda>c. c = CHR ''/''" "rev ?h"] by simp
    show ?thesis
      using whole strip by (simp add: posix_split_def Let_def)
  qed
  have "length head < length name"
  proof (cases "snd (posix_split name) = []")
    case True
    with go tail have "0 < length (snd (posix_split (fst (posix_split name))))"
      by (simp add: makedirs_split_def Let_def)
    then have "length (fst (posix_split (fst (posix_split name)))) < length (fst (posix_split name))"
      using len [of "fst (posix_split name)"] by linarith
    moreover have "length (fst (posix_split name)) \<le> length name"
      using len [of name] by simp
    ultimately show ?thesis
      using True head by (simp add: makedirs_split_def Let_def)
  next
    case False
    then have "0 < length (snd (posix_split name))"
      by simp
    then have "length (fst (posix_split name)) < length name"
      using len [of name] by linarith
    then show ?thesis
      using False head by (simp add: makedirs_split_def Let_def)
  qed
  then show "((head, exist_ok, f), name, exist_ok, f) \<in> measure (\<lambda>(name, exist_ok, f). length name)"
    by simp
qed

declare makedirs.simps [simp del]

text \<open>
  Decoding in text mode is strict: bytes that are not well-formed UTF-8 raise
  \<^verbatim>\<open>UnicodeDecodeError\<close>. Well-formed are the ASCII bytes and the sequences of two
  to four bytes that encode a code point in its shortest form, surrogates and values
  above U+10FFFF excluded.
\<close>

definition byte_in :: "nat \<Rightarrow> nat \<Rightarrow> char \<Rightarrow> bool" where
  "byte_in lo hi c = (lo \<le> of_char c \<and> of_char c \<le> hi)"

fun utf8_valid :: "string \<Rightarrow> bool" where
  "utf8_valid [] = True"
| "utf8_valid (b # bs) =
     (if byte_in 0x00 0x7F b then utf8_valid bs
      else if byte_in 0xC2 0xDF b then
        (case bs of
           c1 # r \<Rightarrow> byte_in 0x80 0xBF c1 \<and> utf8_valid r
         | _ \<Rightarrow> False)
      else if byte_in 0xE0 0xEF b then
        (case bs of
           c1 # c2 # r \<Rightarrow>
             byte_in (if b = CHR 0xE0 then 0xA0 else 0x80) (if b = CHR 0xED then 0x9F else 0xBF) c1
             \<and> byte_in 0x80 0xBF c2 \<and> utf8_valid r
         | _ \<Rightarrow> False)
      else if byte_in 0xF0 0xF4 b then
        (case bs of
           c1 # c2 # c3 # r \<Rightarrow>
             byte_in (if b = CHR 0xF0 then 0x90 else 0x80) (if b = CHR 0xF4 then 0x8F else 0xBF) c1
             \<and> byte_in 0x80 0xBF c2 \<and> byte_in 0x80 0xBF c3 \<and> utf8_valid r
         | _ \<Rightarrow> False)
      else False)"

declare utf8_valid.simps [simp del]

text \<open>
  Text mode also translates line ends on input: \<^verbatim>\<open>\r\n\<close> and a lone \<^verbatim>\<open>\r\<close>
  become \<^verbatim>\<open>\n\<close>.
\<close>

fun universal_newlines :: "string \<Rightarrow> string" where
  "universal_newlines [] = []"
| "universal_newlines (c # cs) =
     (if c = CHR 0x0D then
        (case cs of
           d # ds \<Rightarrow> if d = CHR 0x0A then CHR 0x0A # universal_newlines ds
                     else CHR 0x0A # universal_newlines cs
         | [] \<Rightarrow> [CHR 0x0A])
      else c # universal_newlines cs)"

definition decode_text :: "string \<Rightarrow> py_error + string" where
  "decode_text bytes =
     (if utf8_valid bytes then Inr (universal_newlines bytes) else Inl UnicodeDecodeError)"

text \<open>
  \<^verbatim>\<open>open(p, "r").read()\<close> and \<^verbatim>\<open>open(p, "a").write(s)\<close>. Appending to a missing
  path would create the file; on a POSIX system the text is written as it is.
\<close>

definition read_text :: "filesystem \<Rightarrow> path \<Rightarrow> py_error + string" where
  "read_text f p =
     (case f p of
        None \<Rightarrow> Inl FileNotFoundError
      | Some Dir \<Rightarrow> Inl IsADirectoryError
      | Some (File c) \<Rightarrow> decode_text c)"

definition append_text :: "filesystem \<Rightarrow> path \<Rightarrow> string \<Rightarrow> py_error + filesystem" where
  "append_text f p s =
     (case f p of
        None \<Rightarrow>
          (let parent = fst (posix_split p) in
           if parent \<noteq> [] \<and> f parent = None then Inl FileNotFoundError
           else if parent \<noteq> [] \<and> f parent \<noteq> Some Dir then Inl NotADirectoryError
           else Inr (f(p \<mapsto> File s)))
      | Some Dir \<Rightarrow> Inl IsADirectoryError
      | Some (File c) \<Rightarrow> Inr (f(p \<mapsto> File (c @ s))))"

section \<open>The script\<close>

subsection \<open>\<^verbatim>\<open>update_project_plugins\<close>\<close>

definition plugin_section :: string where
  \<open>plugin_section =
     ''\<newline>[editor_plugins]\<newline>enabled=PackedStringArray("res://addons/aerobeat-core/plugin.cfg", "res://addons/aerobeat-input-mediapipe/plugin.cfg")\<newline>''\<close>

definition project_file :: path where
  "project_file = ''project.godot''"

text \<open>
  The test \<^verbatim>\<open>"[editor_plugins]" in content\<close> asks for a contiguous occurrence of
  the marker anywhere in the decoded text, which is \<open>sublist\<close>. Reading or appending
  can raise; nothing in the script catches that.
\<close>

definition update_project_plugins :: "world \<Rightarrow> (py_error + bool) \<times> world" where
  "update_project_plugins w =
     (let w1 = print ''Updating project.godot plugin configuration...''
                 (enter Update_project_plugins w)
      in
      if \<not> path_exists (fs w1) project_file
      then (Inr False, print (''Error: '' @ project_file @ '' not found'') w1)
      else
        (case read_text (fs w1) project_file of
           Inl e \<Rightarrow> (Inl e, w1)
         | Inr content \<Rightarrow>
             if sublist ''[editor_plugins]'' content
             then (Inr True, print ''Plugin configuration already exists'' w1)
             else
               (case append_text (fs w1) project_file plugin_section of
                  Inl e \<Rightarrow> (Inl e, w1)
                | Inr f' \<Rightarrow> (Inr True, print ''Plugin configuration added'' (w1\<lparr>fs := f'\<rparr>)))))"

subsection \<open>\<^verbatim>\<open>run_command\<close>\<close>

text \<open>
  The command line is echoed and the shell runs it. With \<^verbatim>\<open>text=True\<close> the bytes of
  both streams are decoded once the process has ended, the standard output first; bytes
  that do not decode raise \<^verbatim>\<open>UnicodeDecodeError\<close> out of \<^verbatim>\<open>subprocess.run\<close>, after
  the command has had its effect. Otherwise what the process wrote is printed when it is
  not empty, and the result is whether the return code is zero.
\<close>

definition run_command :: "shell \<Rightarrow> string \<Rightarrow> world \<Rightarrow> (py_error + bool) \<times> world" where
  "run_command sh cmd w =
     (let w1 = print (''>>> '' @ cmd) w;
          result = sh cmd (fs w1);
          w2 = w1\<lparr>fs := fs_after result, cmds := cmds w1 @ [cmd]\<rparr>
      in case decode_text (stdout result) of
           Inl e \<Rightarrow> (Inl e, w2)
         | Inr stdout_text \<Rightarrow>
             (case decode_text (stderr result) of
                Inl e \<Rightarrow> (Inl e, w2)
              | Inr stderr_text \<Rightarrow>
                  (let w3 = (if stdout_text \<noteq> [] then print stdout_text w2 else w2);
                       w4 = (if stderr_text \<noteq> [] then print_stderr stderr_text w3 else w3)
                   in (Inr (returncode result = 0), w4))))"

subsection \<open>\<^verbatim>\<open>setup_submodules\<close>\<close>

definition submodules :: "(string \<times> path) list" where
  "submodules =
     [(''../aerobeat-core'', ''addons/aerobeat-core''),
      (''../aerobeat-input-mediapipe-python'', ''addons/aerobeat-input-mediapipe'')]"

definition add_command :: "string \<Rightarrow> path \<Rightarrow> string" where
  \<open>add_command source dest = ''git submodule add "'' @ source @ ''" "'' @ dest @ ''"''\<close>

definition update_command :: string where
  "update_command = ''git submodule update --init --recursive''"

text \<open>
  The loop over the submodules. \<open>Inr (Some False)\<close> is the \<^verbatim>\<open>return False\<close> inside
  the loop, \<open>Inr None\<close> is the loop running to its end, \<open>Inl\<close> an exception out of
  \<^verbatim>\<open>run_command\<close>.
\<close>

fun add_submodules ::
  "shell \<Rightarrow> (string \<times> path) list \<Rightarrow> world \<Rightarrow> (py_error + bool option) \<times> world" where
  "add_submodules sh [] w = (Inr None, w)"
| "add_submodules sh ((source, dest) # rest) w =
     (if \<not> path_exists (fs w) dest then
        (case run_command sh (add_command source dest)
                (print (''Adding submodule: '' @ source @ '' -> '' @ dest) w) of
           (Inl e, w2) \<Rightarrow> (Inl e, w2)
         | (Inr ok, w2) \<Rightarrow>
             if \<not> ok
             then (Inr (Some False), print (''Failed to add submodule '' @ source) w2)
             else add_submodules sh rest w2)
      else add_submodules sh rest w)"

definition setup_submodules :: "shell \<Rightarrow> world \<Rightarrow> (py_error + bool) \<times> world" where
  "setup_submodules sh w =
     (let w1 = print ''Setting up git submodules...'' (enter Setup_submodules w) in
      if \<not> path_exists (fs w1) ''.git''
      then (Inr False,
            print ''Warning: Not a git repository. Submodules may not work correctly.'' w1)
      else
        (case add_submodules sh submodules w1 of
           (Inl e, w2) \<Rightarrow> (Inl e, w2)
         | (Inr (Some b), w2) \<Rightarrow> (Inr b, w2)
         | (Inr None, w2) \<Rightarrow>
             (case run_command sh update_command w2 of
                (Inl e, w3) \<Rightarrow> (Inl e, w3)
              | (Inr ok, w3) \<Rightarrow>
                  if \<not> ok
                  then (Inr False, print ''Failed to update submodules'' w3)
                  else (Inr True, print ''Submodules configured successfully'' w3))))"

subsection \<open>\<^verbatim>\<open>verify_structure\<close>\<close>

definition required_paths :: "path list" where
  "required_paths =
     [''addons/aerobeat-core/src/interfaces/input_provider.gd'',
      ''addons/aerobeat-input-mediapipe/src/providers/mediapipe_provider.gd'',
      ''src'',
      ''scenes'',
      ''test'']"

text \<open>U+2713 and U+2717, in UTF-8.\<close>

definition check_mark :: string where
  "check_mark = [CHR 0xE2, CHR 0x9C, CHR 0x93]"

definition cross_mark :: string where
  "cross_mark = [CHR 0xE2, CHR 0x9C, CHR 0x97]"

fun verify_paths :: "path list \<Rightarrow> bool \<Rightarrow> world \<Rightarrow> bool \<times> world" where
  "verify_paths [] all_exist w = (all_exist, w)"
| "verify_paths (p # ps) all_exist w =
     (if path_exists (fs w) p
      then verify_paths ps all_exist (print (''  '' @ check_mark @ '' '' @ p) w)
      else verify_paths ps False
             (print (''  '' @ cross_mark @ '' '' @ p @ '' (will be created)'') w))"

definition verify_structure :: "world \<Rightarrow> bool \<times> world" where
  "verify_structure w =
     verify_paths required_paths True
       (print ''Verifying directory structure...'' (enter Verify_structure w))"

subsection \<open>\<^verbatim>\<open>create_directories\<close>\<close>

text \<open>
  The loop ends at the first exception of \<^verbatim>\<open>os.makedirs\<close>; the directories made
  until then stay.
\<close>

definition dirs :: "path list" where
  "dirs = [''src'', ''scenes'', ''test/unit'', ''test/integration'']"

fun make_dirs :: "path list \<Rightarrow> world \<Rightarrow> (py_error + unit) \<times> world" where
  "make_dirs [] w = (Inr (), w)"
| "make_dirs (d # ds) w =
     (case makedirs d True (fs w) of
        (Inl e, f') \<Rightarrow> (Inl e, w\<lparr>fs := f'\<rparr>)
      | (Inr u, f') \<Rightarrow> make_dirs ds (print (''Created: '' @ d) (w\<lparr>fs := f'\<rparr>)))"

definition create_directories :: "world \<Rightarrow> (py_error + unit) \<times> world" where
  "create_directories w = make_dirs dirs (enter Create_directories w)"

subsection \<open>\<^verbatim>\<open>main\<close>\<close>

text \<open>
  The results of the three later phases are not used beyond the warning after
  \<^verbatim>\<open>setup_submodules\<close>; an exception out of any phase ends \<^verbatim>\<open>main\<close>.
\<close>

definition closing_lines :: "world \<Rightarrow> world" where
  "closing_lines w =
     print ''3. Run the project!''
       (print ''2. Install Python dependencies: cd addons/aerobeat-input-mediapipe && ./install_deps.sh''
         (print ''1. Open this project in Godot 4.6''
           (print ''Next steps:''
             (print ''\<newline>=== Setup complete ==='' w))))"

definition main :: "shell \<Rightarrow> world \<Rightarrow> (py_error + unit) \<times> world" where
  "main sh w =
     (case create_directories (print ''=== AeroBeat Assembly Setup ===\<newline>'' w) of
        (Inl e, w1) \<Rightarrow> (Inl e, w1)
      | (Inr u, w1) \<Rightarrow>
          (case setup_submodules sh w1 of
             (Inl e, w2) \<Rightarrow> (Inl e, w2)
           | (Inr ok, w2) \<Rightarrow>
               (let w3 = (if \<not> ok
                          then print ''\<newline>Warning: Submodule setup had issues. You may need to configure manually.'' w2
                          else w2);
                    w4 = snd (verify_structure w3)
                in case update_project_plugins w4 of
                     (Inl e, w5) \<Rightarrow> (Inl e, w5)
                   | (Inr b, w5) \<Rightarrow> (Inr (), closing_lines w5))))"

section \<open>Concrete environments\<close>

text \<open>A fresh run in the working directory \<open>f\<close>: nothing printed, no command issued yet.\<close>

definition start :: "filesystem \<Rightarrow> world" where
  "start f = \<lparr>fs = f, out = [], err = [], cmds = [], calls = []\<rparr>"

text \<open>
  Two shells for running the model: one on which every command succeeds silently and
  changes nothing, one on which every command fails.
\<close>

definition quiet_shell :: shell where
  "quiet_shell cmd f = \<lparr>returncode = 0, stdout = [], stderr = [], fs_after = f\<rparr>"

definition failing_shell :: shell where
  "failing_shell cmd f =
     \<lparr>returncode = 128, stdout = [], stderr = ''fatal: repository not found'', fs_after = f\<rparr>"

text \<open>
  A shell on which the first submodule is cloned into its destination and the second
  repository is not found; every other command succeeds and changes nothing.
\<close>

definition cloning_shell :: shell where
  \<open>cloning_shell cmd f =
     (if cmd = ''git submodule add "../aerobeat-core" "addons/aerobeat-core"''
      then \<lparr>returncode = 0, stdout = [], stderr = ''Cloning into addons/aerobeat-core...'',
            fs_after = f(''addons/aerobeat-core'' \<mapsto> Dir)\<rparr>
      else if cmd = ''git submodule add "../aerobeat-input-mediapipe-python" "addons/aerobeat-input-mediapipe"''
      then \<lparr>returncode = 128, stdout = [], stderr = ''fatal: repository not found'', fs_after = f\<rparr>
      else \<lparr>returncode = 0, stdout = [], stderr = [], fs_after = f\<rparr>)\<close>

text \<open>
  A shell on which both submodules are cloned into their destinations and the update
  changes nothing, and a shell whose commands succeed but write a byte that is not UTF-8.
\<close>

definition cloning_both_shell :: shell where
  \<open>cloning_both_shell cmd f =
     (if cmd = ''git submodule add "../aerobeat-core" "addons/aerobeat-core"''
      then \<lparr>returncode = 0, stdout = [], stderr = [],
            fs_after = f(''addons/aerobeat-core'' \<mapsto> Dir)\<rparr>
      else if cmd = ''git submodule add "../aerobeat-input-mediapipe-python" "addons/aerobeat-input-mediapipe"''
      then \<lparr>returncode = 0, stdout = [], stderr = [],
            fs_after = f(''addons/aerobeat-input-mediapipe'' \<mapsto> Dir)\<rparr>
      else \<lparr>returncode = 0, stdout = [], stderr = [], fs_after = f\<rparr>)\<close>

definition garbled_shell :: shell where
  "garbled_shell cmd f = \<lparr>returncode = 0, stdout = [], stderr = [CHR 0xFF], fs_after = f\<rparr>"

text \<open>A working directory with the repository and the project file, before any setup.\<close>

definition fresh_clone :: filesystem where
  "fresh_clone = [''.git'' \<mapsto> Dir, ''project.godot'' \<mapsto> File ''config_version=5'']"

section \<open>Growth of the working directory\<close>

text \<open>
  \<open>extends_by_dirs S f f'\<close>: the working directory \<open>f'\<close> is \<open>f\<close> with new, empty
  directories at some paths of \<open>S\<close>; every path that \<open>f\<close> has is unchanged.
\<close>

definition extends_by_dirs :: "path set \<Rightarrow> filesystem \<Rightarrow> filesystem \<Rightarrow> bool" where
  "extends_by_dirs S f f' = (\<forall>p. f' p = f p \<or> (p \<in> S \<and> f p = None \<and> f' p = Some Dir))"

section \<open>Field equations\<close>

lemma print_fields [simp]:
  "fs (print s w) = fs w" "out (print s w) = out w @ [s]" "err (print s w) = err w"
  "cmds (print s w) = cmds w" "calls (print s w) = calls w"
  by (simp_all add: print_def)

lemma print_stderr_fields [simp]:
  "fs (print_stderr s w) = fs w" "out (print_stderr s w) = out w"
  "err (print_stderr s w) = err w @ [s]"
  "cmds (print_stderr s w) = cmds w" "calls (print_stderr s w) = calls w"
  by (simp_all add: print_stderr_def)

lemma enter_fields [simp]:
  "fs (enter ph w) = fs w" "out (enter ph w) = out w" "err (enter ph w) = err w"
  "cmds (enter ph w) = cmds w" "calls (enter ph w) = calls w @ [ph]"
  by (simp_all add: enter_def)

lemma run_command_fields [simp]:
  "fs (snd (run_command sh cmd w)) = fs_after (sh cmd (fs w))"
  "cmds (snd (run_command sh cmd w)) = cmds w @ [cmd]"
  "calls (snd (run_command sh cmd w)) = calls w"
  by (simp_all add: run_command_def Let_def split: sum.splits)

lemma run_command_result:
  "fst (run_command sh cmd w) =
     (if utf8_valid (stdout (sh cmd (fs w))) \<and> utf8_valid (stderr (sh cmd (fs w)))
      then Inr (returncode (sh cmd (fs w)) = 0) else Inl UnicodeDecodeError)"
  by (simp add: run_command_def Let_def decode_text_def)

lemma run_command_out: "prefix (out w @ [''>>> '' @ cmd]) (out (snd (run_command sh cmd w)))"
  by (simp add: run_command_def Let_def decode_text_def prefix_def split: sum.splits)

lemma run_command_state:
  assumes "run_command sh cmd v = (r, v')"
  shows "fs v' = fs_after (sh cmd (fs v))" and "cmds v' = cmds v @ [cmd]" and "calls v' = calls v"
  using run_command_fields [of sh cmd v] assms by simp_all

section \<open>Decoding\<close>

text \<open>
  A marker without line ends occurs in the decoded text exactly when it occurs in the
  bytes, so the translation of line ends does not touch the test for it.
\<close>

lemma prefix_universal_newlines:
  assumes "CHR 0x0D \<notin> set m" and "CHR 0x0A \<notin> set m"
  shows "prefix m (universal_newlines cs) \<longleftrightarrow> prefix m cs"
  using assms
proof (induction cs arbitrary: m rule: universal_newlines.induct)
  case 1
  show ?case by simp
next
  case (2 c cs)
  show ?case
  proof (cases m)
    case Nil
    then show ?thesis by simp
  next
    case (Cons a m')
    with "2.prems" have a: "a \<noteq> CHR 0x0D" "a \<noteq> CHR 0x0A"
      and m': "CHR 0x0D \<notin> set m'" "CHR 0x0A \<notin> set m'"
      by auto
    show ?thesis
    proof (cases "c = CHR 0x0D")
      case True
      with a Cons show ?thesis
        by (auto split: list.splits)
    next
      case False
      with "2.IH"(3) [OF False m'] Cons show ?thesis
        by simp
    qed
  qed
qed

lemma sublist_universal_newlines:
  assumes "m \<noteq> []" and "CHR 0x0D \<notin> set m" and "CHR 0x0A \<notin> set m"
  shows "sublist m (universal_newlines cs) \<longleftrightarrow> sublist m cs"
  using assms
proof (induction cs rule: universal_newlines.induct)
  case 1
  show ?case by simp
next
  case (2 c cs)
  from "2.prems" obtain a m' where m: "m = a # m'" and a: "a \<noteq> CHR 0x0D" "a \<noteq> CHR 0x0A"
    by (cases m) auto
  show ?case
  proof (cases "c = CHR 0x0D")
    case cr: True
    show ?thesis
    proof (cases cs)
      case Nil
      with cr m a show ?thesis
        by (simp add: sublist_Cons_right)
    next
      case (Cons d ds)
      show ?thesis
      proof (cases "d = CHR 0x0A")
        case True
        with "2.IH"(1) [OF cr Cons True "2.prems"] cr Cons m a show ?thesis
          by (simp add: sublist_Cons_right)
      next
        case False
        with "2.IH"(2) [OF cr Cons False "2.prems"] cr Cons m a show ?thesis
          by (simp add: sublist_Cons_right)
      qed
    qed
  next
    case False
    have "prefix m (c # universal_newlines cs) \<longleftrightarrow> prefix m (c # cs)"
      using prefix_universal_newlines [of m' cs] "2.prems" m by simp
    with "2.IH"(3) [OF False "2.prems"] False show ?thesis
      by (simp add: sublist_Cons_right)
  qed
qed

lemma marker_after_decoding:
  "sublist ''[editor_plugins]'' (universal_newlines cs) \<longleftrightarrow> sublist ''[editor_plugins]'' cs"
  by (rule sublist_universal_newlines) simp_all

lemma utf8_valid_append: "utf8_valid a \<Longrightarrow> utf8_valid b \<Longrightarrow> utf8_valid (a @ b)"
proof (induction a rule: utf8_valid.induct)
  case 1
  then show ?case by simp
next
  case (2 c cs)
  show ?case
  proof (cases "byte_in 0x00 0x7F c")
    case True
    with "2.prems" "2.IH"(1) show ?thesis
      by (simp add: utf8_valid.simps)
  next
    case ascii: False
    show ?thesis
    proof (cases "byte_in 0xC2 0xDF c")
      case True
      with ascii "2.prems"(1) obtain c1 r where cs: "cs = c1 # r"
        and ok: "byte_in 0x80 0xBF c1" "utf8_valid r"
        by (cases cs) (auto simp: utf8_valid.simps)
      from "2.IH"(2) [OF ascii True cs ok(2) "2.prems"(2)] ascii True cs ok(1)
      show ?thesis by (simp add: utf8_valid.simps)
    next
      case two: False
      show ?thesis
      proof (cases "byte_in 0xE0 0xEF c")
        case True
        with ascii two "2.prems"(1) obtain c1 c2 r where cs: "cs = c1 # c2 # r"
          and ok: "byte_in (if c = CHR 0xE0 then 0xA0 else 0x80) (if c = CHR 0xED then 0x9F else 0xBF) c1"
            "byte_in 0x80 0xBF c2" "utf8_valid r"
          by (cases cs; cases "tl cs") (auto simp: utf8_valid.simps)
        from "2.IH"(3) [OF ascii two True cs refl ok(3) "2.prems"(2)] ascii two True cs ok(1,2)
        show ?thesis by (simp add: utf8_valid.simps)
      next
        case three: False
        with ascii two "2.prems"(1) have four: "byte_in 0xF0 0xF4 c"
          by (simp add: utf8_valid.simps split: if_splits)
        with ascii two three "2.prems"(1) obtain c1 c2 c3 r where cs: "cs = c1 # c2 # c3 # r"
          and ok: "byte_in (if c = CHR 0xF0 then 0x90 else 0x80) (if c = CHR 0xF4 then 0x8F else 0xBF) c1"
            "byte_in 0x80 0xBF c2" "byte_in 0x80 0xBF c3" "utf8_valid r"
          by (simp add: utf8_valid.simps split: list.splits)
        from "2.IH"(4) [OF ascii two three four cs refl refl ok(4) "2.prems"(2)] ascii two three four cs ok(1,2,3)
        show ?thesis by (simp add: utf8_valid.simps)
      qed
    qed
  qed
qed

lemma utf8_valid_Nil [simp]: "utf8_valid []"
  by (simp add: utf8_valid.simps)

section \<open>Properties of \<^verbatim>\<open>update_project_plugins\<close>\<close>

lemma plugin_section_decodes: "utf8_valid plugin_section"
  unfolding plugin_section_def by code_simp

lemma marker_in_plugin_section: "sublist ''[editor_plugins]'' plugin_section"
  unfolding plugin_section_def by code_simp

lemma plugin_section_nonempty: "plugin_section \<noteq> []"
  by (simp add: plugin_section_def)

lemma update_project_plugins_file:
  assumes "fs w ''project.godot'' = Some (File content)"
  shows "update_project_plugins w =
     (let w1 = print ''Updating project.godot plugin configuration...''
                 (enter Update_project_plugins w)
      in if \<not> utf8_valid content then (Inl UnicodeDecodeError, w1)
         else if sublist ''[editor_plugins]'' content
         then (Inr True, print ''Plugin configuration already exists'' w1)
         else (Inr True, print ''Plugin configuration added''
                 (w1\<lparr>fs := (fs w)(''project.godot'' \<mapsto> File (content @ plugin_section))\<rparr>)))"
  using assms
  by (simp add: update_project_plugins_def Let_def path_exists_def read_text_def append_text_def
      decode_text_def marker_after_decoding project_file_def)

text \<open>
  Claim C1, amended. Whatever well-formed UTF-8 text \<^verbatim>\<open>project.godot\<close> held before,
  the plugin block is appended exactly when the text \<^verbatim>\<open>[editor_plugins]\<close> occurs
  nowhere in it, as a substring at any position; when it occurs, the function returns
  \<^verbatim>\<open>True\<close> and the working directory is what it was. When the file does not decode,
  reading it raises \<^verbatim>\<open>UnicodeDecodeError\<close> and the working directory is what it was.
\<close>

theorem update_project_plugins_appends_iff_marker_absent:
  assumes "fs w ''project.godot'' = Some (File content)"
  shows \<open>(utf8_valid content \<longrightarrow>
       fst (update_project_plugins w) = Inr True
     \<and> (sublist ''[editor_plugins]'' content \<longrightarrow> fs (snd (update_project_plugins w)) = fs w)
     \<and> (\<not> sublist ''[editor_plugins]'' content \<longrightarrow>
           fs (snd (update_project_plugins w)) =
             (fs w)(''project.godot'' \<mapsto> File (content @ plugin_section)))
     \<and> (fs (snd (update_project_plugins w)) ''project.godot'' = Some (File (content @ plugin_section))
           \<longleftrightarrow> \<not> sublist ''[editor_plugins]'' content))
    \<and> (\<not> utf8_valid content \<longrightarrow>
       fst (update_project_plugins w) = Inl UnicodeDecodeError
     \<and> fs (snd (update_project_plugins w)) = fs w)
    \<and> (sublist ''[editor_plugins]'' content
           \<longleftrightarrow> (\<exists>before after. content = before @ ''[editor_plugins]'' @ after))
    \<and> plugin_section =
        ''\<newline>[editor_plugins]\<newline>enabled=PackedStringArray("res://addons/aerobeat-core/plugin.cfg", "res://addons/aerobeat-input-mediapipe/plugin.cfg")\<newline>''\<close>
proof -
  note eq = update_project_plugins_file [OF assms]
  have decoded: "utf8_valid content \<longrightarrow>
       fst (update_project_plugins w) = Inr True
     \<and> (sublist ''[editor_plugins]'' content \<longrightarrow> fs (snd (update_project_plugins w)) = fs w)
     \<and> (\<not> sublist ''[editor_plugins]'' content \<longrightarrow>
           fs (snd (update_project_plugins w)) =
             (fs w)(''project.godot'' \<mapsto> File (content @ plugin_section)))
     \<and> (fs (snd (update_project_plugins w)) ''project.godot'' = Some (File (content @ plugin_section))
           \<longleftrightarrow> \<not> sublist ''[editor_plugins]'' content)"
    using assms plugin_section_nonempty by (simp add: eq Let_def)
  have raised: "\<not> utf8_valid content \<longrightarrow>
       fst (update_project_plugins w) = Inl UnicodeDecodeError
     \<and> fs (snd (update_project_plugins w)) = fs w"
    by (simp add: eq Let_def)
  have sub: "sublist ''[editor_plugins]'' content
           \<longleftrightarrow> (\<exists>before after. content = before @ ''[editor_plugins]'' @ after)"
    by (simp add: sublist_def)
  have block: \<open>plugin_section =
        ''\<newline>[editor_plugins]\<newline>enabled=PackedStringArray("res://addons/aerobeat-core/plugin.cfg", "res://addons/aerobeat-input-mediapipe/plugin.cfg")\<newline>''\<close>
    by (simp add: plugin_section_def)
  from decoded raised sub block show ?thesis
    by blast
qed

theorem update_project_plugins_appends_iff_marker_absent_witness:
  \<open>fst (update_project_plugins (start [''project.godot'' \<mapsto> File ''; [editor_plugins] off''])) = Inr True
   \<and> fs (snd (update_project_plugins (start [''project.godot'' \<mapsto> File ''; [editor_plugins] off''])))
       = [''project.godot'' \<mapsto> File ''; [editor_plugins] off'']
   \<and> fs (snd (update_project_plugins (start [''project.godot'' \<mapsto> File ''config_version=5''])))
       = [''project.godot'' \<mapsto> File ''config_version=5\<newline>[editor_plugins]\<newline>enabled=PackedStringArray("res://addons/aerobeat-core/plugin.cfg", "res://addons/aerobeat-input-mediapipe/plugin.cfg")\<newline>'']
   \<and> fst (update_project_plugins (start [''project.godot'' \<mapsto> File [CHR ''a'', CHR 0xE9]]))
       = Inl UnicodeDecodeError\<close>
proof -
  have marked: "sublist ''[editor_plugins]'' ''; [editor_plugins] off''"
    by code_simp
  have plain: "\<not> sublist ''[editor_plugins]'' ''config_version=5''"
    by code_simp
  have decodes: "utf8_valid ''; [editor_plugins] off''" "utf8_valid ''config_version=5''"
    by code_simp+
  have latin: "\<not> utf8_valid [CHR ''a'', CHR 0xE9]"
    by code_simp
  show ?thesis
    using update_project_plugins_appends_iff_marker_absent
            [of "start [''project.godot'' \<mapsto> File ''; [editor_plugins] off'']" "''; [editor_plugins] off''"]
          update_project_plugins_appends_iff_marker_absent
            [of "start [''project.godot'' \<mapsto> File ''config_version=5'']" "''config_version=5''"]
          update_project_plugins_appends_iff_marker_absent
            [of "start [''project.godot'' \<mapsto> File [CHR ''a'', CHR 0xE9]]" "[CHR ''a'', CHR 0xE9]"]
          marked plain decodes latin
    by (simp add: start_def)
qed

text \<open>
  Claim C1 as first stated, for every prior content, fails on a file with the bytes
  \<^verbatim>\<open>name=\xff\xfe\n\<close>: the marker does not occur in it, yet nothing is appended, since
  \<^verbatim>\<open>f.read()\<close> raises before the test is reached.
\<close>

theorem update_project_plugins_undecodable_counterexample:
  "\<not> sublist ''[editor_plugins]'' [CHR ''n'', CHR ''a'', CHR ''m'', CHR ''e'', CHR ''='', CHR 0xFF, CHR 0xFE, CHR 0x0A]
   \<and> fst (update_project_plugins
        (start [''project.godot'' \<mapsto>
           File [CHR ''n'', CHR ''a'', CHR ''m'', CHR ''e'', CHR ''='', CHR 0xFF, CHR 0xFE, CHR 0x0A]]))
       = Inl UnicodeDecodeError
   \<and> fs (snd (update_project_plugins
        (start [''project.godot'' \<mapsto>
           File [CHR ''n'', CHR ''a'', CHR ''m'', CHR ''e'', CHR ''='', CHR 0xFF, CHR 0xFE, CHR 0x0A]])))
       ''project.godot''
       = Some (File [CHR ''n'', CHR ''a'', CHR ''m'', CHR ''e'', CHR ''='', CHR 0xFF, CHR 0xFE, CHR 0x0A])"
  by code_simp

text \<open>
  Claim C7. When the block is appended, which is when \<^verbatim>\<open>project.godot\<close> decodes and
  has no marker, the file holds its old content followed by the fixed fragment, so the
  old content is a prefix of the new; no other path changes; and the fragment enables
  the two plugin descriptors of aerobeat-core and aerobeat-input-mediapipe and nothing
  else.
\<close>

theorem update_project_plugins_append_frame:
  assumes "fs w ''project.godot'' = Some (File content)"
    and "utf8_valid content"
    and "\<not> sublist ''[editor_plugins]'' content"
  shows \<open>fst (update_project_plugins w) = Inr True
    \<and> fs (snd (update_project_plugins w)) ''project.godot'' =
        Some (File (content @
          ''\<newline>[editor_plugins]\<newline>enabled=PackedStringArray('' @ ''"'' @ ''res://addons/aerobeat-core/plugin.cfg'' @ ''"''
            @ '', '' @ ''"'' @ ''res://addons/aerobeat-input-mediapipe/plugin.cfg'' @ ''"'' @ '')\<newline>''))
    \<and> prefix content
        (content @
          ''\<newline>[editor_plugins]\<newline>enabled=PackedStringArray('' @ ''"'' @ ''res://addons/aerobeat-core/plugin.cfg'' @ ''"''
            @ '', '' @ ''"'' @ ''res://addons/aerobeat-input-mediapipe/plugin.cfg'' @ ''"'' @ '')\<newline>'')
    \<and> (\<forall>p. p \<noteq> ''project.godot'' \<longrightarrow> fs (snd (update_project_plugins w)) p = fs w p)\<close>
proof -
  note eq = update_project_plugins_file [OF assms(1)]
  have new: "fs (snd (update_project_plugins w)) =
               (fs w)(''project.godot'' \<mapsto> File (content @ plugin_section))"
    and ok: "fst (update_project_plugins w) = Inr True"
    using assms(2,3) by (simp_all add: eq Let_def)
  have block: \<open>plugin_section =
        ''\<newline>[editor_plugins]\<newline>enabled=PackedStringArray('' @ ''"'' @ ''res://addons/aerobeat-core/plugin.cfg'' @ ''"''
            @ '', '' @ ''"'' @ ''res://addons/aerobeat-input-mediapipe/plugin.cfg'' @ ''"'' @ '')\<newline>''\<close>
    by (simp add: plugin_section_def)
  show ?thesis
    using ok by (simp add: new block)
qed

theorem update_project_plugins_append_frame_witness:
  \<open>fs (snd (update_project_plugins
        (start [''project.godot'' \<mapsto> File ''config_version=5'', ''icon.svg'' \<mapsto> File ''<svg/>''])))
     ''project.godot'' =
       Some (File ''config_version=5\<newline>[editor_plugins]\<newline>enabled=PackedStringArray("res://addons/aerobeat-core/plugin.cfg", "res://addons/aerobeat-input-mediapipe/plugin.cfg")\<newline>'')
   \<and> fs (snd (update_project_plugins
        (start [''project.godot'' \<mapsto> File ''config_version=5'', ''icon.svg'' \<mapsto> File ''<svg/>''])))
     ''icon.svg'' = Some (File ''<svg/>'')\<close>
proof -
  have plain: "\<not> sublist ''[editor_plugins]'' ''config_version=5''"
    by code_simp
  have decodes: "utf8_valid ''config_version=5''"
    by code_simp
  have there: "fs (start [''project.godot'' \<mapsto> File ''config_version=5'', ''icon.svg'' \<mapsto> File ''<svg/>''])
                 ''project.godot'' = Some (File ''config_version=5'')"
    by (simp add: start_def)
  show ?thesis
    using update_project_plugins_append_frame [OF there decodes plain]
    by (simp add: start_def)
qed

text \<open>
  Claim C8. Without a project file the function prints the error, returns
  \<^verbatim>\<open>False\<close> and leaves the working directory as it was; it runs no command.
\<close>

theorem update_project_plugins_missing_file:
  assumes "\<not> path_exists (fs w) project_file"
  shows "fst (update_project_plugins w) = Inr False
    \<and> fs (snd (update_project_plugins w)) = fs w
    \<and> cmds (snd (update_project_plugins w)) = cmds w
    \<and> err (snd (update_project_plugins w)) = err w
    \<and> out (snd (update_project_plugins w)) =
        out w @ [''Updating project.godot plugin configuration...'',
                 ''Error: project.godot not found'']"
  using assms
  by (simp add: update_project_plugins_def Let_def print_def enter_def project_file_def)

theorem update_project_plugins_missing_file_witness:
  "fst (update_project_plugins (start [''src'' \<mapsto> Dir])) = Inr False
   \<and> fs (snd (update_project_plugins (start [''src'' \<mapsto> Dir]))) = [''src'' \<mapsto> Dir]"
proof -
  have absent: "\<not> path_exists (fs (start [''src'' \<mapsto> Dir])) project_file"
    by (simp add: start_def path_exists_def project_file_def)
  show ?thesis
    using update_project_plugins_missing_file [OF absent] by (simp add: start_def)
qed

section \<open>Properties of \<^verbatim>\<open>setup_submodules\<close>\<close>

text \<open>
  Claim C9. Outside a repository (no path \<^verbatim>\<open>.git\<close>) the function prints the
  warning, returns \<^verbatim>\<open>False\<close> and hands no command to the shell, whatever the
  shell would do; the working directory is untouched.
\<close>

theorem setup_submodules_outside_repository:
  assumes "\<not> path_exists (fs w) ''.git''"
  shows "fst (setup_submodules sh w) = Inr False
    \<and> cmds (snd (setup_submodules sh w)) = cmds w
    \<and> fs (snd (setup_submodules sh w)) = fs w
    \<and> out (snd (setup_submodules sh w)) =
        out w @ [''Setting up git submodules...'',
                 ''Warning: Not a git repository. Submodules may not work correctly.'']"
  using assms by (simp add: setup_submodules_def Let_def)

theorem setup_submodules_outside_repository_witness:
  "fst (setup_submodules quiet_shell (start [''src'' \<mapsto> Dir])) = Inr False
   \<and> cmds (snd (setup_submodules quiet_shell (start [''src'' \<mapsto> Dir]))) = []"
proof -
  have outside: "\<not> path_exists (fs (start [''src'' \<mapsto> Dir])) ''.git''"
    by (simp add: start_def path_exists_def)
  show ?thesis
    using setup_submodules_outside_repository [OF outside, of quiet_shell]
    by (simp add: start_def)
qed







section \<open>Properties of \<^verbatim>\<open>verify_structure\<close>\<close>

lemma verify_paths_result:
  "verify_paths ps all_exist w =
     (all_exist \<and> list_all (path_exists (fs w)) ps,
      w\<lparr>out := out w @
         map (\<lambda>p. if path_exists (fs w) p then ''  '' @ check_mark @ '' '' @ p
                  else ''  '' @ cross_mark @ '' '' @ p @ '' (will be created)'') ps\<rparr>)"
proof (induction ps arbitrary: all_exist w)
  case Nil
  show ?case by simp
next
  case (Cons p ps)
  show ?case
    by (simp add: Cons.IH print_def)
qed

text \<open>
  Claim C4. The function looks at five fixed paths; after its heading it prints one line
  per path, in order: two spaces, the check mark U+2713 and the path when the path
  exists, two spaces, the cross U+2717, the path and \<^verbatim>\<open>(will be created)\<close> when it does
  not. It changes neither the working directory nor the command log, and it returns
  \<^verbatim>\<open>True\<close> exactly when all five paths exist.
\<close>

theorem verify_structure_reports_five_paths:
  "out (snd (verify_structure w)) =
       out w @ ''Verifying directory structure...'' #
         map (\<lambda>p. if path_exists (fs w) p
                  then [CHR '' '', CHR '' '', CHR 0xE2, CHR 0x9C, CHR 0x93, CHR '' ''] @ p
                  else [CHR '' '', CHR '' '', CHR 0xE2, CHR 0x9C, CHR 0x97, CHR '' ''] @ p
                         @ '' (will be created)'')
           [''addons/aerobeat-core/src/interfaces/input_provider.gd'',
            ''addons/aerobeat-input-mediapipe/src/providers/mediapipe_provider.gd'',
            ''src'', ''scenes'', ''test'']
   \<and> fs (snd (verify_structure w)) = fs w
   \<and> cmds (snd (verify_structure w)) = cmds w
   \<and> fst (verify_structure w) =
       list_all (path_exists (fs w))
         [''addons/aerobeat-core/src/interfaces/input_provider.gd'',
          ''addons/aerobeat-input-mediapipe/src/providers/mediapipe_provider.gd'',
          ''src'', ''scenes'', ''test'']
   \<and> required_paths =
       [''addons/aerobeat-core/src/interfaces/input_provider.gd'',
        ''addons/aerobeat-input-mediapipe/src/providers/mediapipe_provider.gd'',
        ''src'', ''scenes'', ''test'']
   \<and> length required_paths = 5"
  by (simp add: verify_structure_def verify_paths_result required_paths_def check_mark_def cross_mark_def)

theorem verify_structure_reports_five_paths_witness:
  "out (snd (verify_structure (start [''src'' \<mapsto> Dir, ''test'' \<mapsto> Dir]))) =
     [''Verifying directory structure...'',
      [CHR '' '', CHR '' '', CHR 0xE2, CHR 0x9C, CHR 0x97]
        @ '' addons/aerobeat-core/src/interfaces/input_provider.gd (will be created)'',
      [CHR '' '', CHR '' '', CHR 0xE2, CHR 0x9C, CHR 0x97]
        @ '' addons/aerobeat-input-mediapipe/src/providers/mediapipe_provider.gd (will be created)'',
      [CHR '' '', CHR '' '', CHR 0xE2, CHR 0x9C, CHR 0x93] @ '' src'',
      [CHR '' '', CHR '' '', CHR 0xE2, CHR 0x9C, CHR 0x97] @ '' scenes (will be created)'',
      [CHR '' '', CHR '' '', CHR 0xE2, CHR 0x9C, CHR 0x93] @ '' test'']
   \<and> fst (verify_structure (start [''src'' \<mapsto> Dir, ''test'' \<mapsto> Dir])) = False"
  using verify_structure_reports_five_paths [of "start [''src'' \<mapsto> Dir, ''test'' \<mapsto> Dir]"]
  by (simp add: start_def path_exists_def)

section \<open>Properties of \<^verbatim>\<open>os.makedirs\<close> and \<^verbatim>\<open>create_directories\<close>\<close>

lemma extends_by_dirs_refl: "extends_by_dirs S f f"
  by (simp add: extends_by_dirs_def)

lemma extends_by_dirs_trans:
  assumes "extends_by_dirs S f g" and "extends_by_dirs T g h"
  shows "extends_by_dirs (S \<union> T) f h"
  unfolding extends_by_dirs_def
proof
  fix p
  from assms have "g p = f p \<or> (p \<in> S \<and> f p = None \<and> g p = Some Dir)"
    and "h p = g p \<or> (p \<in> T \<and> g p = None \<and> h p = Some Dir)"
    by (simp_all add: extends_by_dirs_def)
  then show "h p = f p \<or> (p \<in> S \<union> T \<and> f p = None \<and> h p = Some Dir)"
    by auto
qed

lemma extends_by_dirs_mono: "extends_by_dirs S f g \<Longrightarrow> S \<subseteq> T \<Longrightarrow> extends_by_dirs T f g"
  by (auto simp: extends_by_dirs_def)

lemma extends_by_dirs_keeps: "extends_by_dirs S f g \<Longrightarrow> f p = Some n \<Longrightarrow> g p = Some n"
  by (auto simp: extends_by_dirs_def dest: spec [of _ p])

lemma makedirs_leaf_extends: "extends_by_dirs {name} f (snd (makedirs_leaf name exist_ok f))"
  by (auto simp: makedirs_leaf_def mkdir_def Let_def extends_by_dirs_def)

lemma makedirs_leaf_ok:
  "fst (makedirs_leaf name True f) = Inr () \<Longrightarrow> snd (makedirs_leaf name True f) name = Some Dir"
  by (auto simp: makedirs_leaf_def mkdir_def Let_def isdir_def split: if_splits)

lemma makedirs_leaf_present:
  "f name = Some Dir \<Longrightarrow> makedirs_leaf name True f = (Inr (), f)"
  by (auto simp: makedirs_leaf_def mkdir_def Let_def isdir_def split: sum.splits if_splits)

text \<open>Whatever the name, \<^verbatim>\<open>os.makedirs\<close> only adds directories; by computation induction.\<close>

lemma makedirs_extends: "extends_by_dirs UNIV f (snd (makedirs name exist_ok f))"
proof (induction name exist_ok f rule: makedirs.induct)
  case (1 name exist_ok f)
  let ?head = "fst (makedirs_split name)" and ?tail = "snd (makedirs_split name)"
  have leaf: "extends_by_dirs UNIV g (snd (makedirs_leaf name exist_ok g))" for g
    using makedirs_leaf_extends [of name g exist_ok] by (rule extends_by_dirs_mono) simp
  show ?case
  proof (cases "?head \<noteq> [] \<and> ?tail \<noteq> [] \<and> \<not> path_exists f ?head")
    case False
    then have "makedirs name exist_ok f = makedirs_leaf name exist_ok f"
      by (subst makedirs.simps) (auto simp: Let_def)
    then show ?thesis
      using leaf [of f] by simp
  next
    case True
    obtain r f1 where rec: "makedirs ?head exist_ok f = (r, f1)"
      by (cases "makedirs ?head exist_ok f")
    have up: "extends_by_dirs UNIV f f1"
      using "1.IH" [OF refl refl True] rec by simp
    have "snd (makedirs name exist_ok f) = f1
        \<or> snd (makedirs name exist_ok f) = snd (makedirs_leaf name exist_ok f1)"
      using True rec by (subst (1 2) makedirs.simps) (auto simp: Let_def split: sum.splits)
    then show ?thesis
      using up leaf [of f1] extends_by_dirs_trans [of UNIV f f1 UNIV] by auto
  qed
qed

lemma makedirs_flat:
  assumes "makedirs_split name = ([], name)"
  shows "makedirs name exist_ok f = makedirs_leaf name exist_ok f"
  using assms by (subst makedirs.simps) simp

lemma makedirs_split_dirs:
  "makedirs_split ''src'' = ([], ''src'')"
  "makedirs_split ''scenes'' = ([], ''scenes'')"
  "makedirs_split ''test'' = ([], ''test'')"
  "makedirs_split ''test/unit'' = (''test'', ''unit'')"
  "makedirs_split ''test/integration'' = (''test'', ''integration'')"
  by (simp_all add: makedirs_split_def posix_split_def)

lemma makedirs_under_test:
  assumes "makedirs_split name = (''test'', t)" and "t \<noteq> []" and "t \<noteq> ''.''"
  shows "makedirs name exist_ok f =
     (if f ''test'' = None then makedirs_leaf name exist_ok (f(''test'' \<mapsto> Dir))
      else makedirs_leaf name exist_ok f)"
proof -
  have parent: "f ''test'' = None \<Longrightarrow> makedirs ''test'' exist_ok f = (Inr (), f(''test'' \<mapsto> Dir))"
    by (simp add: makedirs_flat makedirs_split_dirs makedirs_leaf_def mkdir_def posix_split_def)
  show ?thesis
  proof (cases "f ''test'' = None")
    case True
    with assms parent show ?thesis
      by (subst makedirs.simps) (simp add: path_exists_def Let_def)
  next
    case False
    then obtain n where "f ''test'' = Some n"
      by auto
    with assms show ?thesis
      by (subst makedirs.simps) (simp add: path_exists_def Let_def)
  qed
qed

lemma makedirs_dirs_extends:
  assumes "d \<in> set dirs"
  shows "extends_by_dirs (insert ''test'' (set dirs)) f (snd (makedirs d True f))"
proof -
  have flat: "extends_by_dirs (insert ''test'' (set dirs)) f (snd (makedirs d True f))"
    if "makedirs_split d = ([], d)"
    using extends_by_dirs_mono [OF makedirs_leaf_extends [of d f True]] assms
    by (simp add: makedirs_flat [OF that])
  have nested: "extends_by_dirs (insert ''test'' (set dirs)) f (snd (makedirs d True f))"
    if split: "makedirs_split d = (''test'', t)" and t: "t \<noteq> []" "t \<noteq> ''.''" for t
  proof (cases "f ''test''")
    case None
    have "extends_by_dirs {''test''} f (f(''test'' \<mapsto> Dir))"
      using None by (simp add: extends_by_dirs_def)
    from extends_by_dirs_trans [OF this makedirs_leaf_extends [of d "f(''test'' \<mapsto> Dir)" True]]
    have "extends_by_dirs ({''test''} \<union> {d}) f (snd (makedirs d True f))"
      using None by (simp add: makedirs_under_test [OF split t])
    from extends_by_dirs_mono [OF this] assms show ?thesis
      by simp
  next
    case (Some n)
    then have "extends_by_dirs {d} f (snd (makedirs d True f))"
      using makedirs_leaf_extends [of d f True] by (simp add: makedirs_under_test [OF split t])
    from extends_by_dirs_mono [OF this] assms show ?thesis
      by simp
  qed
  from assms consider "d = ''src''" | "d = ''scenes''" | "d = ''test/unit''" | "d = ''test/integration''"
    by (auto simp: dirs_def)
  then show ?thesis
  proof cases
    case 1 then show ?thesis using flat by (simp add: makedirs_split_dirs)
  next
    case 2 then show ?thesis using flat by (simp add: makedirs_split_dirs)
  next
    case 3 then show ?thesis using nested [of "''unit''"] by (simp add: makedirs_split_dirs)
  next
    case 4 then show ?thesis using nested [of "''integration''"] by (simp add: makedirs_split_dirs)
  qed
qed

lemma makedirs_dirs_ok:
  assumes "d \<in> set dirs" and "fst (makedirs d True f) = Inr ()"
  shows "snd (makedirs d True f) d = Some Dir"
    and "d = ''test/unit'' \<or> d = ''test/integration'' \<Longrightarrow> snd (makedirs d True f) ''test'' \<noteq> None"
proof -
  have flat: "snd (makedirs d True f) d = Some Dir" if "makedirs_split d = ([], d)"
    using assms(2) makedirs_leaf_ok [of d f] by (simp add: makedirs_flat [OF that])
  have nested: "snd (makedirs d True f) d = Some Dir \<and> snd (makedirs d True f) ''test'' \<noteq> None"
    if split: "makedirs_split d = (''test'', t)" and t: "t \<noteq> []" "t \<noteq> ''.''" for t
  proof (cases "f ''test''")
    case None
    let ?g = "f(''test'' \<mapsto> Dir)"
    have run: "makedirs d True f = makedirs_leaf d True ?g"
      using None by (simp add: makedirs_under_test [OF split t])
    have "snd (makedirs_leaf d True ?g) ''test'' = Some Dir"
      using extends_by_dirs_keeps [OF makedirs_leaf_extends [of d ?g True], of "''test''" Dir]
      by simp
    then show ?thesis
      using assms(2) makedirs_leaf_ok [of d ?g] by (simp add: run)
  next
    case (Some n)
    have run: "makedirs d True f = makedirs_leaf d True f"
      using Some by (simp add: makedirs_under_test [OF split t])
    have "snd (makedirs_leaf d True f) ''test'' = Some n"
      using extends_by_dirs_keeps [OF makedirs_leaf_extends [of d f True], of "''test''" n] Some
      by simp
    then show ?thesis
      using assms(2) makedirs_leaf_ok [of d f] by (simp add: run)
  qed
  from assms(1) consider "d = ''src''" | "d = ''scenes''" | "d = ''test/unit''" | "d = ''test/integration''"
    by (auto simp: dirs_def)
  then show "snd (makedirs d True f) d = Some Dir"
  proof cases
    case 1 then show ?thesis using flat by (simp add: makedirs_split_dirs)
  next
    case 2 then show ?thesis using flat by (simp add: makedirs_split_dirs)
  next
    case 3 then show ?thesis using nested [of "''unit''"] by (simp add: makedirs_split_dirs)
  next
    case 4 then show ?thesis using nested [of "''integration''"] by (simp add: makedirs_split_dirs)
  qed
  show "snd (makedirs d True f) ''test'' \<noteq> None" if "d = ''test/unit'' \<or> d = ''test/integration''"
    using that nested [of "''unit''"] nested [of "''integration''"]
    by (auto simp: makedirs_split_dirs)
qed

lemma makedirs_dirs_stable:
  assumes "d \<in> set dirs" and "f d = Some Dir" and "f ''test'' \<noteq> None"
  shows "makedirs d True f = (Inr (), f)"
proof -
  from assms(3) obtain n where parent: "f ''test'' = Some n"
    by auto
  from assms(1) consider "d = ''src''" | "d = ''scenes''" | "d = ''test/unit''" | "d = ''test/integration''"
    by (auto simp: dirs_def)
  then show ?thesis
  proof cases
    case 1 with assms show ?thesis
      by (simp add: makedirs_flat makedirs_split_dirs makedirs_leaf_present)
  next
    case 2 with assms show ?thesis
      by (simp add: makedirs_flat makedirs_split_dirs makedirs_leaf_present)
  next
    case 3 with assms parent show ?thesis
      by (simp add: makedirs_under_test [of _ "''unit''"] makedirs_split_dirs makedirs_leaf_present)
  next
    case 4 with assms parent show ?thesis
      by (simp add: makedirs_under_test [of _ "''integration''"] makedirs_split_dirs makedirs_leaf_present)
  qed
qed

lemma make_dirs_fields:
  "calls (snd (make_dirs ds w)) = calls w"
  "cmds (snd (make_dirs ds w)) = cmds w"
  "err (snd (make_dirs ds w)) = err w"
  by (induction ds arbitrary: w; simp split: prod.splits sum.splits)+

lemma make_dirs_fs_only:
  "fs w = fs w' \<Longrightarrow>
     fst (make_dirs ds w) = fst (make_dirs ds w') \<and>
     fs (snd (make_dirs ds w)) = fs (snd (make_dirs ds w'))"
proof (induction ds arbitrary: w w')
  case Nil
  then show ?case by simp
next
  case (Cons d ds)
  obtain r f' where step: "makedirs d True (fs w') = (r, f')"
    by (cases "makedirs d True (fs w')")
  show ?case
  proof (cases r)
    case (Inl e)
    with step Cons.prems show ?thesis by simp
  next
    case (Inr u)
    have "fs (print (''Created: '' @ d) (w\<lparr>fs := f'\<rparr>)) = fs (print (''Created: '' @ d) (w'\<lparr>fs := f'\<rparr>))"
      by simp
    from Cons.IH [OF this] show ?thesis
      using step Inr Cons.prems by simp
  qed
qed

lemma make_dirs_extends:
  "set ds \<subseteq> set dirs \<Longrightarrow>
     extends_by_dirs (insert ''test'' (set dirs)) (fs w) (fs (snd (make_dirs ds w)))"
proof (induction ds arbitrary: w)
  case Nil
  show ?case by (simp add: extends_by_dirs_refl)
next
  case (Cons d ds)
  then have d: "d \<in> set dirs" and ds: "set ds \<subseteq> set dirs"
    by simp_all
  obtain r f' where step: "makedirs d True (fs w) = (r, f')"
    by (cases "makedirs d True (fs w)")
  have one: "extends_by_dirs (insert ''test'' (set dirs)) (fs w) f'"
    using makedirs_dirs_extends [OF d, of "fs w"] step by simp
  show ?case
  proof (cases r)
    case (Inl e)
    with step one show ?thesis by simp
  next
    case (Inr u)
    let ?w1 = "print (''Created: '' @ d) (w\<lparr>fs := f'\<rparr>)"
    have "extends_by_dirs (insert ''test'' (set dirs)) f' (fs (snd (make_dirs ds ?w1)))"
      using Cons.IH [OF ds, of ?w1] by simp
    from extends_by_dirs_trans [OF one this] show ?thesis
      using step Inr by simp
  qed
qed

lemma make_dirs_ok:
  "set ds \<subseteq> set dirs \<Longrightarrow> fst (make_dirs ds w) = Inr () \<Longrightarrow>
     (\<forall>d\<in>set ds. fs (snd (make_dirs ds w)) d = Some Dir) \<and>
     (''test/unit'' \<in> set ds \<or> ''test/integration'' \<in> set ds
        \<longrightarrow> fs (snd (make_dirs ds w)) ''test'' \<noteq> None)"
proof (induction ds arbitrary: w)
  case Nil
  show ?case by simp
next
  case (Cons d ds)
  then have d: "d \<in> set dirs" and ds: "set ds \<subseteq> set dirs"
    by simp_all
  obtain r f' where step: "makedirs d True (fs w) = (r, f')"
    by (cases "makedirs d True (fs w)")
  let ?w1 = "print (''Created: '' @ d) (w\<lparr>fs := f'\<rparr>)"
  from Cons.prems(2) step have r: "r = Inr ()" and rest: "fst (make_dirs ds ?w1) = Inr ()"
    by (auto split: sum.splits)
  have run: "make_dirs (d # ds) w = make_dirs ds ?w1"
    using step r by simp
  have made: "f' d = Some Dir"
    using makedirs_dirs_ok(1) [OF d, of "fs w"] step r by simp
  have parent: "f' ''test'' \<noteq> None" if "d = ''test/unit'' \<or> d = ''test/integration''"
    using makedirs_dirs_ok(2) [OF d _ that, of "fs w"] step r by simp
  have later: "extends_by_dirs (insert ''test'' (set dirs)) f' (fs (snd (make_dirs ds ?w1)))"
    using make_dirs_extends [OF ds, of ?w1] by simp
  have keep_d: "fs (snd (make_dirs ds ?w1)) d = Some Dir"
    using extends_by_dirs_keeps [OF later made] .
  have keep_parent: "fs (snd (make_dirs ds ?w1)) ''test'' \<noteq> None"
    if "d = ''test/unit'' \<or> d = ''test/integration''"
  proof -
    from parent [OF that] obtain n where "f' ''test'' = Some n" by auto
    from extends_by_dirs_keeps [OF later this] show ?thesis by simp
  qed
  show ?case
    unfolding run using Cons.IH [OF ds rest] keep_d keep_parent by auto
qed

lemma make_dirs_stable:
  "set ds \<subseteq> set dirs \<Longrightarrow> \<forall>d\<in>set dirs. fs w d = Some Dir \<Longrightarrow> fs w ''test'' \<noteq> None \<Longrightarrow>
     fst (make_dirs ds w) = Inr () \<and> fs (snd (make_dirs ds w)) = fs w"
proof (induction ds arbitrary: w)
  case Nil
  show ?case by simp
next
  case (Cons d ds)
  then have d: "d \<in> set dirs" and ds: "set ds \<subseteq> set dirs"
    by simp_all
  have step: "makedirs d True (fs w) = (Inr (), fs w)"
    using makedirs_dirs_stable [OF d] Cons.prems(2,3) d by simp
  let ?w1 = "print (''Created: '' @ d) (w\<lparr>fs := fs w\<rparr>)"
  have "fst (make_dirs ds ?w1) = Inr () \<and> fs (snd (make_dirs ds ?w1)) = fs ?w1"
    using Cons.prems(2,3) by (intro Cons.IH [OF ds]) simp_all
  then show ?case
    using step by simp
qed



section \<open>Properties of \<^verbatim>\<open>main\<close>\<close>

lemma add_submodules_calls: "calls (snd (add_submodules sh subs w)) = calls w"
proof (induction sh subs w rule: add_submodules.induct)
  case (1 sh w)
  show ?case by simp
next
  case (2 sh source dest rest w)
  let ?v = "print (''Adding submodule: '' @ source @ '' -> '' @ dest) w"
  obtain r v' where run: "run_command sh (add_command source dest) ?v = (r, v')"
    by (cases "run_command sh (add_command source dest) ?v")
  have v': "calls v' = calls w"
    using run_command_state(3) [OF run] by simp
  show ?case
  proof (cases "path_exists (fs w) dest")
    case True
    with "2.IH"(2) show ?thesis by simp
  next
    case False
    show ?thesis
    proof (cases r)
      case (Inl e)
      with False run v' show ?thesis by simp
    next
      case (Inr ok)
      with False run v' "2.IH"(1) [OF False run [symmetric, unfolded Inr] refl] show ?thesis
        by (cases ok) simp_all
    qed
  qed
qed

lemma add_submodules_keeps_path:
  assumes "\<forall>cmd f. path_exists f p \<longrightarrow> path_exists (fs_after (sh cmd f)) p"
    and "path_exists (fs w) p"
  shows "path_exists (fs (snd (add_submodules sh subs w))) p"
  using assms
proof (induction sh subs w rule: add_submodules.induct)
  case (1 sh w)
  then show ?case by simp
next
  case (2 sh source dest rest w)
  let ?v = "print (''Adding submodule: '' @ source @ '' -> '' @ dest) w"
  obtain r v' where run: "run_command sh (add_command source dest) ?v = (r, v')"
    by (cases "run_command sh (add_command source dest) ?v")
  have v': "path_exists (fs v') p"
    using run_command_state(1) [OF run] "2.prems" by simp
  show ?case
  proof (cases "path_exists (fs w) dest")
    case True
    with "2.IH"(2) "2.prems" show ?thesis by simp
  next
    case False
    show ?thesis
    proof (cases r)
      case (Inl e)
      with False run v' show ?thesis by simp
    next
      case (Inr ok)
      with False run v' "2.IH"(1) [OF False run [symmetric, unfolded Inr] refl _ "2.prems"(1)]
      show ?thesis
        by (cases ok) simp_all
    qed
  qed
qed

lemma setup_submodules_calls:
  "calls (snd (setup_submodules sh w)) = calls w @ [Setup_submodules]"
proof -
  let ?w1 = "print ''Setting up git submodules...'' (enter Setup_submodules w)"
  obtain x w2 where loop: "add_submodules sh submodules ?w1 = (x, w2)"
    by (cases "add_submodules sh submodules ?w1")
  obtain r w3 where run: "run_command sh update_command w2 = (r, w3)"
    by (cases "run_command sh update_command w2")
  have w2: "calls w2 = calls w @ [Setup_submodules]"
    using add_submodules_calls [of sh submodules ?w1] loop by simp
  then have "calls w3 = calls w @ [Setup_submodules]"
    using run_command_state(3) [OF run] by simp
  with w2 show ?thesis
    using loop run by (simp add: setup_submodules_def Let_def split: sum.splits option.splits)
qed

lemma setup_submodules_keeps_path:
  assumes "\<forall>cmd f. path_exists f p \<longrightarrow> path_exists (fs_after (sh cmd f)) p"
    and "path_exists (fs w) p"
  shows "path_exists (fs (snd (setup_submodules sh w))) p"
proof -
  let ?w1 = "print ''Setting up git submodules...'' (enter Setup_submodules w)"
  obtain x w2 where loop: "add_submodules sh submodules ?w1 = (x, w2)"
    by (cases "add_submodules sh submodules ?w1")
  obtain r w3 where run: "run_command sh update_command w2 = (r, w3)"
    by (cases "run_command sh update_command w2")
  have w2: "path_exists (fs w2) p"
    using add_submodules_keeps_path [OF assms(1), of ?w1 submodules] loop assms(2) by simp
  then have "path_exists (fs w3) p"
    using run_command_state(1) [OF run] assms(1) by simp
  with w2 show ?thesis
    using loop run assms(2) by (simp add: setup_submodules_def Let_def split: sum.splits option.splits)
qed

lemma verify_structure_fields:
  "fs (snd (verify_structure w)) = fs w"
  "calls (snd (verify_structure w)) = calls w @ [Verify_structure]"
  "prefix (out w @ [''Verifying directory structure...'']) (out (snd (verify_structure w)))"
  by (simp_all add: verify_structure_def verify_paths_result)

lemma update_project_plugins_calls:
  "calls (snd (update_project_plugins w)) = calls w @ [Update_project_plugins]"
  by (simp add: update_project_plugins_def Let_def split: sum.splits)

lemma update_project_plugins_out: "prefix (out w) (out (snd (update_project_plugins w)))"
  by (simp add: update_project_plugins_def Let_def split: sum.splits)

lemma update_project_plugins_keeps_path:
  assumes "path_exists (fs w) p"
  shows "path_exists (fs (snd (update_project_plugins w))) p"
proof (cases "fs w ''project.godot''")
  case None
  with assms show ?thesis
    by (simp add: update_project_plugins_def Let_def path_exists_def project_file_def)
next
  case (Some n)
  show ?thesis
  proof (cases n)
    case (File content)
    with Some assms show ?thesis
      by (simp add: update_project_plugins_file path_exists_def Let_def)
  next
    case Dir
    with Some assms show ?thesis
      by (simp add: update_project_plugins_def Let_def path_exists_def read_text_def project_file_def)
  qed
qed

lemma create_directories_calls:
  "calls (snd (create_directories w)) = calls w @ [Create_directories]"
  by (simp add: create_directories_def make_dirs_fields)

lemma create_directories_print:
  "fst (create_directories (print s w)) = fst (create_directories w)"
  "fs (snd (create_directories (print s w))) = fs (snd (create_directories w))"
  using make_dirs_fs_only [of "enter Create_directories (print s w)" "enter Create_directories w" dirs]
  by (simp_all add: create_directories_def)

lemma closing_lines_fields [simp]:
  "fs (closing_lines w) = fs w" "calls (closing_lines w) = calls w"
  "prefix (out w) (out (closing_lines w))"
  by (simp_all add: closing_lines_def)

text \<open>What \<^verbatim>\<open>main\<close> does once the first two phases have returned.\<close>

lemma main_after_setup_submodules:
  assumes "create_directories (print ''=== AeroBeat Assembly Setup ===\<newline>'' w) = (Inr u, w1)"
    and "setup_submodules sh w1 = (Inr ok, w2)"
  shows "calls (snd (main sh w)) = calls w2 @ [Verify_structure, Update_project_plugins]"
    and "path_exists (fs w2) p \<Longrightarrow> path_exists (fs (snd (main sh w))) p"
    and "prefix
           (out w2 @
              (if ok then []
               else [''\<newline>Warning: Submodule setup had issues. You may need to configure manually.''])
              @ [''Verifying directory structure...''])
           (out (snd (main sh w)))"
proof -
  let ?w3 = "if \<not> ok
             then print ''\<newline>Warning: Submodule setup had issues. You may need to configure manually.'' w2
             else w2"
  let ?w4 = "snd (verify_structure ?w3)"
  obtain x w5 where last: "update_project_plugins ?w4 = (x, w5)"
    by (cases "update_project_plugins ?w4")
  have final: "snd (main sh w) = (case x of Inl e \<Rightarrow> w5 | Inr b \<Rightarrow> closing_lines w5)"
    using assms last by (simp add: main_def Let_def split: sum.splits)
  have c4: "calls ?w4 = calls w2 @ [Verify_structure]"
    by (simp add: verify_structure_fields)
  have c5: "calls w5 = calls w2 @ [Verify_structure, Update_project_plugins]"
    using update_project_plugins_calls [of ?w4] last c4 by simp
  show "calls (snd (main sh w)) = calls w2 @ [Verify_structure, Update_project_plugins]"
    using c5 by (simp add: final split: sum.splits)
  show "path_exists (fs (snd (main sh w))) p" if p: "path_exists (fs w2) p"
  proof -
    have "path_exists (fs ?w4) p"
      using p by (simp add: verify_structure_fields)
    then have "path_exists (fs w5) p"
      using update_project_plugins_keeps_path [of ?w4 p] last by simp
    then show ?thesis
      by (simp add: final split: sum.splits)
  qed
  have o4: "prefix (out ?w3 @ [''Verifying directory structure...'']) (out ?w4)"
    by (rule verify_structure_fields)
  have o5: "prefix (out ?w4) (out w5)"
    using update_project_plugins_out [of ?w4] last by simp
  have o6: "prefix (out w5) (out (snd (main sh w)))"
    by (simp add: final split: sum.splits)
  from o4 o5 o6 have "prefix (out ?w3 @ [''Verifying directory structure...'']) (out (snd (main sh w)))"
    using prefix_order.order_trans by blast
  then show "prefix
           (out w2 @
              (if ok then []
               else [''\<newline>Warning: Submodule setup had issues. You may need to configure manually.''])
              @ [''Verifying directory structure...''])
           (out (snd (main sh w)))"
    by (cases ok) simp_all
qed

text \<open>
  Claim C10. From every initial working directory, when \<^verbatim>\<open>main\<close> completes, the five
  paths \<^verbatim>\<open>src\<close>, \<^verbatim>\<open>scenes\<close>, \<^verbatim>\<open>test\<close>, \<^verbatim>\<open>test/unit\<close> and
  \<^verbatim>\<open>test/integration\<close> exist; \<^verbatim>\<open>test\<close> is never listed, it comes from the recursive
  creation of its children. The commands that run after \<^verbatim>\<open>create_directories\<close> belong
  to the version-control tool; it is taken not to remove any of these five paths.
\<close>

theorem main_leaves_five_directories:
  assumes "fst (main sh w) = Inr ()"
    and "\<forall>cmd f. \<forall>p\<in>set [''src'', ''scenes'', ''test'', ''test/unit'', ''test/integration''].
           path_exists f p \<longrightarrow> path_exists (fs_after (sh cmd f)) p"
  shows "\<forall>p\<in>set [''src'', ''scenes'', ''test'', ''test/unit'', ''test/integration''].
           path_exists (fs (snd (main sh w))) p"
proof
  fix p
  assume p: "p \<in> set [''src'', ''scenes'', ''test'', ''test/unit'', ''test/integration'']"
  let ?w0 = "print ''=== AeroBeat Assembly Setup ===\<newline>'' w"
  obtain r w1 where made: "create_directories ?w0 = (r, w1)"
    by (cases "create_directories ?w0")
  have "r = Inr ()"
    using assms(1) made by (cases r) (simp_all add: main_def)
  with made have made': "create_directories ?w0 = (Inr (), w1)"
    by simp
  obtain x w2 where ran: "setup_submodules sh w1 = (x, w2)"
    by (cases "setup_submodules sh w1")
  from ran obtain ok where ran': "setup_submodules sh w1 = (Inr ok, w2)"
    using assms(1) made' by (cases x) (simp_all add: main_def)
  from made' have loop: "fst (make_dirs dirs (enter Create_directories ?w0)) = Inr ()"
    and w1: "w1 = snd (make_dirs dirs (enter Create_directories ?w0))"
    by (simp_all add: create_directories_def)
  have four: "\<forall>d\<in>set dirs. fs w1 d = Some Dir" and parent: "fs w1 ''test'' \<noteq> None"
    using make_dirs_ok [OF subset_refl loop] by (simp_all add: w1 dirs_def)
  have "path_exists (fs w1) p"
    using p four parent by (auto simp: path_exists_def dirs_def)
  moreover have "\<forall>cmd f. path_exists f p \<longrightarrow> path_exists (fs_after (sh cmd f)) p"
    using assms(2) p by blast
  ultimately have "path_exists (fs w2) p"
    using setup_submodules_keeps_path [of p sh w1] ran' by simp
  then show "path_exists (fs (snd (main sh w))) p"
    by (rule main_after_setup_submodules(2) [OF made' ran'])
qed

theorem main_leaves_five_directories_witness:
  "fst (main cloning_shell (start [''.git'' \<mapsto> Dir])) = Inr ()
   \<and> path_exists (fs (snd (main cloning_shell (start [''.git'' \<mapsto> Dir])))) ''test''
   \<and> path_exists (fs (snd (main cloning_shell (start [''.git'' \<mapsto> Dir])))) ''test/integration''"
proof -
  have completes: "fst (main cloning_shell (start [''.git'' \<mapsto> Dir])) = Inr ()"
    by code_simp
  have keeps: "\<forall>cmd f. \<forall>p\<in>set [''src'', ''scenes'', ''test'', ''test/unit'', ''test/integration''].
      path_exists f p \<longrightarrow> path_exists (fs_after (cloning_shell cmd f)) p"
    by (simp add: cloning_shell_def path_exists_def)
  show ?thesis
    using main_leaves_five_directories [OF completes keeps] completes by simp
qed

text \<open>
  Claim C3, amended. \<^verbatim>\<open>main\<close> enters the phases \<^verbatim>\<open>create_directories\<close>,
  \<^verbatim>\<open>setup_submodules\<close>, \<^verbatim>\<open>verify_structure\<close>, \<^verbatim>\<open>update_project_plugins\<close> in
  this order. From every initial state in which the first two return, all four are
  entered, once each, whatever the phases return: when \<^verbatim>\<open>setup_submodules\<close> returns
  \<^verbatim>\<open>False\<close>, the warning is printed right after its output and
  \<^verbatim>\<open>verify_structure\<close> starts next; when it returns \<^verbatim>\<open>True\<close>,
  \<^verbatim>\<open>verify_structure\<close> starts at once. An exception is not caught: when
  \<^verbatim>\<open>os.makedirs\<close> raises in \<^verbatim>\<open>create_directories\<close>, or \<^verbatim>\<open>subprocess.run\<close> in
  \<^verbatim>\<open>setup_submodules\<close>, \<^verbatim>\<open>main\<close> ends with that exception and enters no later
  phase.
\<close>

theorem main_runs_four_phases_in_order:
  "(\<forall>w1 ok w2.
       create_directories (print ''=== AeroBeat Assembly Setup ===\<newline>'' w) = (Inr (), w1)
       \<and> setup_submodules sh w1 = (Inr ok, w2) \<longrightarrow>
         calls (snd (main sh w)) =
           calls w @ [Create_directories, Setup_submodules, Verify_structure, Update_project_plugins]
       \<and> prefix
           (out w2 @
              (if ok then []
               else [''\<newline>Warning: Submodule setup had issues. You may need to configure manually.''])
              @ [''Verifying directory structure...''])
           (out (snd (main sh w))))
   \<and> (\<forall>e w1.
       create_directories (print ''=== AeroBeat Assembly Setup ===\<newline>'' w) = (Inl e, w1) \<longrightarrow>
         main sh w = (Inl e, w1) \<and> calls w1 = calls w @ [Create_directories])
   \<and> (\<forall>e w1 w2.
       create_directories (print ''=== AeroBeat Assembly Setup ===\<newline>'' w) = (Inr (), w1)
       \<and> setup_submodules sh w1 = (Inl e, w2) \<longrightarrow>
         main sh w = (Inl e, w2) \<and> calls w2 = calls w @ [Create_directories, Setup_submodules])"
proof -
  let ?w0 = "print ''=== AeroBeat Assembly Setup ===\<newline>'' w"
  have entered: "calls w1 = calls w @ [Create_directories]" if "create_directories ?w0 = (r, w1)" for r w1
    using create_directories_calls [of ?w0] that by simp
  have entered2: "calls w2 = calls w @ [Create_directories, Setup_submodules]"
    if "create_directories ?w0 = (r, w1)" and "setup_submodules sh w1 = (x, w2)" for r w1 x w2
    using entered [OF that(1)] setup_submodules_calls [of sh w1] that(2) by simp
  have all: "calls (snd (main sh w)) =
           calls w @ [Create_directories, Setup_submodules, Verify_structure, Update_project_plugins]
       \<and> prefix
           (out w2 @
              (if ok then []
               else [''\<newline>Warning: Submodule setup had issues. You may need to configure manually.''])
              @ [''Verifying directory structure...''])
           (out (snd (main sh w)))"
    if made: "create_directories ?w0 = (Inr (), w1)" and ran: "setup_submodules sh w1 = (Inr ok, w2)"
    for w1 ok w2
    using main_after_setup_submodules(1,3) [OF made ran] entered2 [OF made ran] by simp
  have stop1: "main sh w = (Inl e, w1) \<and> calls w1 = calls w @ [Create_directories]"
    if made: "create_directories ?w0 = (Inl e, w1)" for e w1
    using made entered [OF made] by (simp add: main_def)
  have stop2: "main sh w = (Inl e, w2) \<and> calls w2 = calls w @ [Create_directories, Setup_submodules]"
    if made: "create_directories ?w0 = (Inr (), w1)" and ran: "setup_submodules sh w1 = (Inl e, w2)"
    for e w1 w2
    using made ran entered2 [OF made ran] by (simp add: main_def)
  from all stop1 stop2 show ?thesis
    by blast
qed

theorem main_runs_four_phases_in_order_witness:
  "calls (snd (main failing_shell (start [''.git'' \<mapsto> Dir]))) =
       [Create_directories, Setup_submodules, Verify_structure, Update_project_plugins]
   \<and> ''\<newline>Warning: Submodule setup had issues. You may need to configure manually.''
       \<in> set (out (snd (main failing_shell (start [''.git'' \<mapsto> Dir]))))
   \<and> fst (main quiet_shell (start [''scenes'' \<mapsto> File ''notes''])) = Inl FileExistsError
   \<and> calls (snd (main quiet_shell (start [''scenes'' \<mapsto> File ''notes'']))) = [Create_directories]
   \<and> fst (main garbled_shell (start [''.git'' \<mapsto> Dir])) = Inl UnicodeDecodeError
   \<and> calls (snd (main garbled_shell (start [''.git'' \<mapsto> Dir]))) =
       [Create_directories, Setup_submodules]"
proof -
  let ?banner = "''=== AeroBeat Assembly Setup ===\<newline>''"
  let ?repo = "start [''.git'' \<mapsto> Dir]" and ?blocked = "start [''scenes'' \<mapsto> File ''notes'']"
  let ?made = "create_directories (print ?banner ?repo)"
  have returns: "fst ?made = Inr ()"
    by code_simp
  then have made: "?made = (Inr (), snd ?made)"
    by (metis prod.collapse)
  have "fst (setup_submodules failing_shell (snd ?made)) = Inr False"
    by code_simp
  then have failed: "setup_submodules failing_shell (snd ?made) =
      (Inr False, snd (setup_submodules failing_shell (snd ?made)))"
    by (metis prod.collapse)
  have "fst (setup_submodules garbled_shell (snd ?made)) = Inl UnicodeDecodeError"
    by code_simp
  then have garbled: "setup_submodules garbled_shell (snd ?made) =
      (Inl UnicodeDecodeError, snd (setup_submodules garbled_shell (snd ?made)))"
    by (metis prod.collapse)
  have "fst (create_directories (print ?banner ?blocked)) = Inl FileExistsError"
    by code_simp
  then have raises: "create_directories (print ?banner ?blocked) =
      (Inl FileExistsError, snd (create_directories (print ?banner ?blocked)))"
    by (metis prod.collapse)
  note a = main_runs_four_phases_in_order
      [of ?repo failing_shell, THEN conjunct1, rule_format, OF conjI, OF made failed]
  note b = main_runs_four_phases_in_order
      [of ?blocked quiet_shell, THEN conjunct2, THEN conjunct1, rule_format, OF raises]
  note c = main_runs_four_phases_in_order
      [of ?repo garbled_shell, THEN conjunct2, THEN conjunct2, rule_format, OF conjI, OF made garbled]
  from a have warned: "''\<newline>Warning: Submodule setup had issues. You may need to configure manually.''
       \<in> set (out (snd (main failing_shell ?repo)))"
    by (auto simp: prefix_def)
  have fresh: "calls ?repo = []" "calls ?blocked = []"
    by (simp_all add: start_def)
  from a [THEN conjunct1] b c warned show ?thesis
    unfolding fresh by simp
qed

text \<open>
  Claim C3 as first stated, for every initial working directory, fails where a regular
  file is called \<^verbatim>\<open>src\<close>: \<^verbatim>\<open>os.makedirs\<close> raises \<^verbatim>\<open>FileExistsError\<close>, nothing
  catches it, and neither \<^verbatim>\<open>setup_submodules\<close> nor the two phases after it are run.
\<close>

theorem main_stops_when_makedirs_raises_counterexample:
  "fst (main quiet_shell (start [''src'' \<mapsto> File []])) = Inl FileExistsError
   \<and> calls (snd (main quiet_shell (start [''src'' \<mapsto> File []]))) = [Create_directories]
   \<and> cmds (snd (main quiet_shell (start [''src'' \<mapsto> File []]))) = []"
  by code_simp

section \<open>Running the operations a second time\<close>

lemma update_project_plugins_true:
  assumes "fst (update_project_plugins w) = Inr True"
  obtains content where "fs w ''project.godot'' = Some (File content)" and "utf8_valid content"
proof (cases "fs w ''project.godot''")
  case None
  with assms show ?thesis
    by (simp add: update_project_plugins_def Let_def path_exists_def project_file_def)
next
  case (Some n)
  show ?thesis
  proof (cases n)
    case (File content)
    with Some assms have "utf8_valid content"
      by (simp add: update_project_plugins_file Let_def split: if_splits)
    with Some File that show ?thesis
      by blast
  next
    case Dir
    with Some assms show ?thesis
      by (simp add: update_project_plugins_def Let_def path_exists_def read_text_def project_file_def)
  qed
qed

lemma update_project_plugins_rerun:
  assumes "fst (update_project_plugins w) = Inr True"
  shows "fst (update_project_plugins (snd (update_project_plugins w))) = Inr True
    \<and> fs (snd (update_project_plugins (snd (update_project_plugins w)))) =
        fs (snd (update_project_plugins w))"
proof -
  from assms obtain content where old: "fs w ''project.godot'' = Some (File content)"
    and decodes: "utf8_valid content"
    by (rule update_project_plugins_true)
  let ?w1 = "snd (update_project_plugins w)"
  obtain content' where new: "fs ?w1 ''project.godot'' = Some (File content')"
    and decodes': "utf8_valid content'"
    and marked: "sublist ''[editor_plugins]'' content'"
  proof (cases "sublist ''[editor_plugins]'' content")
    case True
    with old decodes have "fs ?w1 ''project.godot'' = Some (File content)"
      by (simp add: update_project_plugins_file Let_def)
    with True decodes that show ?thesis
      by blast
  next
    case False
    with old decodes have "fs ?w1 ''project.godot'' = Some (File (content @ plugin_section))"
      by (simp add: update_project_plugins_file Let_def)
    moreover have "sublist ''[editor_plugins]'' (content @ plugin_section)"
      using marker_in_plugin_section by (auto simp: sublist_append)
    moreover have "utf8_valid (content @ plugin_section)"
      using decodes plugin_section_decodes by (rule utf8_valid_append)
    ultimately show ?thesis
      using that by blast
  qed
  show ?thesis
    using marked decodes' by (simp add: update_project_plugins_file [OF new] Let_def)
qed

lemma create_directories_rerun:
  assumes "fst (create_directories w) = Inr ()"
  shows "fst (create_directories (snd (create_directories w))) = Inr ()
    \<and> fs (snd (create_directories (snd (create_directories w)))) = fs (snd (create_directories w))"
proof -
  let ?w1 = "snd (create_directories w)"
  from assms have loop: "fst (make_dirs dirs (enter Create_directories w)) = Inr ()"
    by (simp add: create_directories_def)
  have four: "\<forall>d\<in>set dirs. fs ?w1 d = Some Dir" and parent: "fs ?w1 ''test'' \<noteq> None"
    using make_dirs_ok [OF subset_refl loop] by (simp_all add: create_directories_def dirs_def)
  show ?thesis
    using make_dirs_stable [OF subset_refl, of "enter Create_directories ?w1"] four parent
    by (simp add: create_directories_def)
qed

lemma add_submodules_never_true: "fst (add_submodules sh subs w) \<noteq> Inr (Some True)"
proof (induction sh subs w rule: add_submodules.induct)
  case (1 sh w)
  show ?case by simp
next
  case (2 sh source dest rest w)
  let ?v = "print (''Adding submodule: '' @ source @ '' -> '' @ dest) w"
  obtain r v' where run: "run_command sh (add_command source dest) ?v = (r, v')"
    by (cases "run_command sh (add_command source dest) ?v")
  show ?case
  proof (cases "path_exists (fs w) dest")
    case True
    with "2.IH"(2) show ?thesis by simp
  next
    case False
    show ?thesis
    proof (cases r)
      case (Inl e)
      with False run show ?thesis by simp
    next
      case (Inr ok)
      with False run "2.IH"(1) [OF False run [symmetric, unfolded Inr] refl] show ?thesis
        by (cases ok) simp_all
    qed
  qed
qed

lemma setup_submodules_true:
  assumes "fst (setup_submodules sh w) = Inr True"
  obtains f where "fs (snd (setup_submodules sh w)) = fs_after (sh update_command f)"
    and "returncode (sh update_command f) = 0"
proof -
  let ?w1 = "print ''Setting up git submodules...'' (enter Setup_submodules w)"
  obtain x w2 where loop: "add_submodules sh submodules ?w1 = (x, w2)"
    by (cases "add_submodules sh submodules ?w1")
  obtain r w3 where run: "run_command sh update_command w2 = (r, w3)"
    by (cases "run_command sh update_command w2")
  have "x \<noteq> Inr (Some True)"
    using add_submodules_never_true [of sh submodules ?w1] loop by simp
  with assms loop run have git: "path_exists (fs w) ''.git''" and x: "x = Inr None" and r: "r = Inr True"
    by (auto simp: setup_submodules_def Let_def split: if_splits sum.splits option.splits)
  have "fst (run_command sh update_command w2) = Inr True"
    using run r by simp
  then have ok: "returncode (sh update_command (fs w2)) = 0"
    by (simp add: run_command_result split: if_splits)
  have "fs (snd (setup_submodules sh w)) = fs w3"
    using git loop run x r by (simp add: setup_submodules_def Let_def)
  then have "fs (snd (setup_submodules sh w)) = fs_after (sh update_command (fs w2))"
    using run_command_state(1) [OF run] by simp
  with ok that show ?thesis
    by blast
qed

lemma setup_submodules_skips_adds:
  assumes "path_exists (fs w) ''addons/aerobeat-core''"
    and "path_exists (fs w) ''addons/aerobeat-input-mediapipe''"
  shows "fs (snd (setup_submodules sh w)) =
           (if path_exists (fs w) ''.git'' then fs_after (sh update_command (fs w)) else fs w)"
    and "cmds (snd (setup_submodules sh w)) =
           cmds w @ (if path_exists (fs w) ''.git'' then [update_command] else [])"
proof -
  let ?w1 = "print ''Setting up git submodules...'' (enter Setup_submodules w)"
  have loop: "add_submodules sh submodules ?w1 = (Inr None, ?w1)"
    using assms by (simp add: submodules_def)
  obtain r w3 where run: "run_command sh update_command ?w1 = (r, w3)"
    by (cases "run_command sh update_command ?w1")
  have w3: "fs w3 = fs_after (sh update_command (fs w))" "cmds w3 = cmds w @ [update_command]"
    using run_command_state(1,2) [OF run] by simp_all
  show "fs (snd (setup_submodules sh w)) =
           (if path_exists (fs w) ''.git'' then fs_after (sh update_command (fs w)) else fs w)"
    using loop run w3 by (simp add: setup_submodules_def Let_def split: sum.splits)
  show "cmds (snd (setup_submodules sh w)) =
           cmds w @ (if path_exists (fs w) ''.git'' then [update_command] else [])"
    using loop run w3 by (simp add: setup_submodules_def Let_def split: sum.splits)
qed

lemma setup_submodules_rerun:
  assumes "fst (setup_submodules sh w) = Inr True"
    and "path_exists (fs (snd (setup_submodules sh w))) ''addons/aerobeat-core''"
    and "path_exists (fs (snd (setup_submodules sh w))) ''addons/aerobeat-input-mediapipe''"
    and "\<forall>f. returncode (sh ''git submodule update --init --recursive'' f) = 0 \<longrightarrow>
           fs_after (sh ''git submodule update --init --recursive''
                      (fs_after (sh ''git submodule update --init --recursive'' f))) =
           fs_after (sh ''git submodule update --init --recursive'' f)"
  shows "fs (snd (setup_submodules sh (snd (setup_submodules sh w)))) = fs (snd (setup_submodules sh w))"
    and "cmds (snd (setup_submodules sh (snd (setup_submodules sh w)))) =
           cmds (snd (setup_submodules sh w)) @
             (if path_exists (fs (snd (setup_submodules sh w))) ''.git''
              then [''git submodule update --init --recursive''] else [])"
proof -
  let ?w1 = "snd (setup_submodules sh w)"
  from assms(1) obtain f where f: "fs ?w1 = fs_after (sh update_command f)"
    and ok: "returncode (sh update_command f) = 0"
    by (rule setup_submodules_true)
  have again: "fs_after (sh update_command (fs ?w1)) = fs ?w1"
    using assms(4) f ok by (simp add: update_command_def)
  show "fs (snd (setup_submodules sh ?w1)) = fs ?w1"
    using setup_submodules_skips_adds(1) [OF assms(2,3), of sh] again by simp
  show "cmds (snd (setup_submodules sh ?w1)) =
           cmds ?w1 @ (if path_exists (fs ?w1) ''.git''
              then [''git submodule update --init --recursive''] else [])"
    using setup_submodules_skips_adds(2) [OF assms(2,3), of sh] by (simp add: update_command_def)
qed

text \<open>
  Claim C2. Each operation, run a second time right after a successful run, leaves the
  working directory, which holds the version-control state, as the first run left it.
  \<^verbatim>\<open>update_project_plugins\<close> skips the block because the marker is present, and
  \<^verbatim>\<open>create_directories\<close> finds its directories. \<^verbatim>\<open>setup_submodules\<close> skips each
  add because the destination exists, and issues at most the recursive update again;
  that command belongs to the version-control tool, which is taken to change nothing
  when a successful update is repeated at once.
\<close>

theorem second_run_leaves_state:
  "(fst (update_project_plugins w) = Inr True \<longrightarrow>
      fst (update_project_plugins (snd (update_project_plugins w))) = Inr True
      \<and> fs (snd (update_project_plugins (snd (update_project_plugins w)))) =
          fs (snd (update_project_plugins w)))
   \<and> (fst (create_directories w) = Inr () \<longrightarrow>
      fst (create_directories (snd (create_directories w))) = Inr ()
      \<and> fs (snd (create_directories (snd (create_directories w)))) =
          fs (snd (create_directories w)))
   \<and> (fst (setup_submodules sh w) = Inr True
       \<and> path_exists (fs (snd (setup_submodules sh w))) ''addons/aerobeat-core''
       \<and> path_exists (fs (snd (setup_submodules sh w))) ''addons/aerobeat-input-mediapipe''
       \<and> (\<forall>f. returncode (sh ''git submodule update --init --recursive'' f) = 0 \<longrightarrow>
             fs_after (sh ''git submodule update --init --recursive''
                        (fs_after (sh ''git submodule update --init --recursive'' f))) =
             fs_after (sh ''git submodule update --init --recursive'' f)) \<longrightarrow>
      fs (snd (setup_submodules sh (snd (setup_submodules sh w)))) = fs (snd (setup_submodules sh w))
      \<and> cmds (snd (setup_submodules sh (snd (setup_submodules sh w)))) =
           cmds (snd (setup_submodules sh w)) @
             (if path_exists (fs (snd (setup_submodules sh w))) ''.git''
              then [''git submodule update --init --recursive''] else []))"
  using update_project_plugins_rerun [of w] create_directories_rerun [of w]
    setup_submodules_rerun [of sh w]
  by blast

theorem second_run_leaves_state_witness:
  "fs (snd (update_project_plugins (snd (update_project_plugins (start fresh_clone))))) =
     fs (snd (update_project_plugins (start fresh_clone)))
   \<and> fs (snd (create_directories (snd (create_directories (start fresh_clone))))) =
     fs (snd (create_directories (start fresh_clone)))
   \<and> fst (setup_submodules cloning_both_shell (start fresh_clone)) = Inr True
   \<and> fs (snd (setup_submodules cloning_both_shell
              (snd (setup_submodules cloning_both_shell (start fresh_clone))))) =
     fs (snd (setup_submodules cloning_both_shell (start fresh_clone)))"
proof -
  let ?first = "setup_submodules cloning_both_shell (start fresh_clone)"
  have plugins: "fst (update_project_plugins (start fresh_clone)) = Inr True"
    by code_simp
  have made: "fst (create_directories (start fresh_clone)) = Inr ()"
    by code_simp
  have registered: "fst ?first = Inr True"
    by code_simp
  have core: "path_exists (fs (snd ?first)) ''addons/aerobeat-core''"
    by code_simp
  have mediapipe: "path_exists (fs (snd ?first)) ''addons/aerobeat-input-mediapipe''"
    by code_simp
  have idle: "\<forall>f. returncode (cloning_both_shell ''git submodule update --init --recursive'' f) = 0 \<longrightarrow>
       fs_after (cloning_both_shell ''git submodule update --init --recursive''
                  (fs_after (cloning_both_shell ''git submodule update --init --recursive'' f))) =
       fs_after (cloning_both_shell ''git submodule update --init --recursive'' f)"
    by (simp add: cloning_both_shell_def)
  note t = second_run_leaves_state [of "start fresh_clone" cloning_both_shell]
  note a = t [THEN conjunct1, rule_format, OF plugins, THEN conjunct2]
  note b = t [THEN conjunct2, THEN conjunct1, rule_format, OF made, THEN conjunct2]
  note c = t [THEN conjunct2, THEN conjunct2, rule_format,
      OF conjI [OF registered conjI [OF core conjI [OF mediapipe idle]]], THEN conjunct1]
  from a b registered c show ?thesis
    by blast
qed

end
